theory Spec2Isabelle
  imports Main "HOL-Library.Word" "HOL-Library.Sublist"
begin

section \<open>JavaScript values the code observes\<close>

text \<open>
  Strings are modelled as \<^typ>\<open>string\<close>. The frames are data URLs produced by
  \<^verbatim>\<open>canvas.toDataURL\<close>, which are ASCII, so \<^verbatim>\<open>charCodeAt\<close> is the character's
  code. A thrown JavaScript value is \<open>Some message\<close> when it is an \<^verbatim>\<open>Error\<close> instance and
  \<open>None\<close> otherwise; the code renders both with
  \<^verbatim>\<open>error instanceof Error ? error.message : 'Unknown error'\<close>.
\<close>

datatype 'a outcome = Throws "string option" | Returns 'a

definition errorMessage :: "string option \<Rightarrow> string" where
  "errorMessage thrown = (case thrown of Some message \<Rightarrow> message | None \<Rightarrow> ''Unknown error'')"

text \<open>Template literals render numbers in decimal; \<^verbatim>\<open>toString(16)\<close> renders in hexadecimal.\<close>

definition digitChar :: "nat \<Rightarrow> char" where
  "digitChar d = ''0123456789abcdef'' ! (d mod 16)"

function showRadix :: "nat \<Rightarrow> nat \<Rightarrow> string" where
  "showRadix b n =
     (if b < 2 \<or> n < b then [digitChar n] else showRadix b (n div b) @ [digitChar (n mod b)])"
  by pat_completeness auto
termination
  by (relation "measure (\<lambda>(b, n). n)") auto

declare showRadix.simps [simp del]

definition showNat :: "nat \<Rightarrow> string" where
  "showNat n = showRadix 10 n"

definition toString16 :: "int \<Rightarrow> string" where
  "toString16 i = (if i < 0 then CHR ''-'' # showRadix 16 (nat (- i)) else showRadix 16 (nat i))"

section \<open>The frame fingerprint (\<^verbatim>\<open>simpleHash\<close>, use-screen-capture.ts)\<close>

text \<open>
  \<^verbatim>\<open>hash = ((hash << 5) - hash) + char; hash = hash & hash\<close> keeps \<open>hash\<close> a signed 32-bit
  integer after every round, so the loop is arithmetic on \<^typ>\<open>32 word\<close>, read back with
  \<^const>\<open>sint\<close> for \<^verbatim>\<open>hash.toString(16)\<close>.
\<close>

definition hashStep :: "32 word \<Rightarrow> char \<Rightarrow> 32 word" where
  "hashStep hash c = (push_bit 5 hash - hash) + word_of_nat (of_char c)"

definition simpleHash :: "string \<Rightarrow> string" where
  "simpleHash str = toString16 (sint (foldl hashStep 0 str))"

section \<open>The capture hook (\<^verbatim>\<open>useScreenCapture\<close>)\<close>

text \<open>
  The hook's React state and refs. \<open>captureInterval\<close> is the period of the interval
  registered in \<^verbatim>\<open>captureIntervalRef\<close> (\<open>None\<close> when there is none). The last four
  fields log what the hook sends out: the arguments of \<^verbatim>\<open>onFrameCapture\<close>, the bodies
  posted to \<^verbatim>\<open>/api/analyze/batch\<close> and \<^verbatim>\<open>/api/analyze/summarize\<close>, and the arguments of
  \<^verbatim>\<open>onAnalysisComplete\<close>. The media stream, the video element and the canvas are left out:
  a tick receives what \<^verbatim>\<open>captureScreenshot\<close> resolved to.
\<close>

record hook_state =
  isCapturing :: bool
  isRecording :: bool
  isProcessing :: bool
  error :: "string option"
  captureCount :: nat
  analyses :: "string list"
  captureRate :: int
  frameBuffer :: "string list"
  lastFrameHash :: string
  captureInterval :: "int option"
  frameCaptured :: "nat list"
  batchPosted :: "string list list"
  summarizePosted :: "string list list"
  analysisCompleted :: "string list"

text \<open>
  A callback of the hook is a closure of one render: it reads the state constants
  \<^verbatim>\<open>captureCount\<close>, \<^verbatim>\<open>captureRate\<close> and \<^verbatim>\<open>analyses\<close> as that render bound them, whatever
  the state has become since. Refs and functional updates (\<^verbatim>\<open>setX(prev => ...)\<close>) read the
  current state.
\<close>

record render =
  seenCaptureCount :: nat
  seenCaptureRate :: int
  seenAnalyses :: "string list"

definition renderOf :: "hook_state \<Rightarrow> render" where
  "renderOf s = \<lparr>seenCaptureCount = captureCount s, seenCaptureRate = captureRate s,
                 seenAnalyses = analyses s\<rparr>"

text \<open>
  The hook's surroundings: whether the optional props are supplied, and what the two
  endpoints answer to a posted body: \<^verbatim>\<open>fetch\<close> throws, or replies with a status and the
  field the hook reads from the JSON (\<^verbatim>\<open>data.analyses\<close> when it is an array,
  \<^verbatim>\<open>data.summary\<close> when it is a string).
\<close>

record env =
  onFrameCapture :: bool
  onAnalysisComplete :: bool
  batchApi :: "string list \<Rightarrow> (nat \<times> string list option) outcome"
  summarizeApi :: "string list \<Rightarrow> (nat \<times> string option) outcome"

definition responseOk :: "nat \<Rightarrow> bool" where
  "responseOk status = (200 \<le> status \<and> status \<le> 299)"

definition initialState :: hook_state where
  "initialState = \<lparr>isCapturing = False, isRecording = False, isProcessing = False,
     error = None, captureCount = 0, analyses = [], captureRate = 1000, frameBuffer = [],
     lastFrameHash = [], captureInterval = None, frameCaptured = [], batchPosted = [],
     summarizePosted = [], analysisCompleted = []\<rparr>"

definition analyzeScreenshots :: "env \<Rightarrow> string list \<Rightarrow> hook_state \<Rightarrow> hook_state" where
  "analyzeScreenshots e screenshots s =
     (if screenshots = [] then s
      else
        let s1 = s\<lparr>batchPosted := batchPosted s @ [screenshots]\<rparr> in
        case batchApi e screenshots of
          Throws thrown \<Rightarrow>
            s1\<lparr>error := Some (''Failed to analyze batch: '' @ errorMessage thrown)\<rparr>
        | Returns (status, found) \<Rightarrow>
            if \<not> responseOk status then
              s1\<lparr>error := Some (''Failed to analyze batch: API request failed with status ''
                              @ showNat status)\<rparr>
            else (case found of
                    Some results \<Rightarrow> s1\<lparr>analyses := analyses s1 @ results\<rparr>
                  | None \<Rightarrow> s1))"

definition processFrameBuffer :: "env \<Rightarrow> hook_state \<Rightarrow> hook_state" where
  "processFrameBuffer e s =
     (let buffer = frameBuffer s in
      if buffer = [] then s
      else analyzeScreenshots e buffer (s\<lparr>frameBuffer := []\<rparr>))"

definition startPeriodicCapture :: "render \<Rightarrow> hook_state \<Rightarrow> hook_state" where
  "startPeriodicCapture r s =
     s\<lparr>isRecording := True, captureCount := 0, analyses := [], frameBuffer := [],
       lastFrameHash := [], captureInterval := Some (seenCaptureRate r)\<rparr>"

definition notifyFrame :: "env \<Rightarrow> nat \<Rightarrow> hook_state \<Rightarrow> hook_state" where
  "notifyFrame e newCount s =
     (if onFrameCapture e then s\<lparr>frameCaptured := frameCaptured s @ [newCount]\<rparr> else s)"

definition complete :: "env \<Rightarrow> string \<Rightarrow> hook_state \<Rightarrow> hook_state" where
  "complete e analysis s =
     (if onAnalysisComplete e then s\<lparr>analysisCompleted := analysisCompleted s @ [analysis]\<rparr>
      else s)"

definition stopCapture :: "env \<Rightarrow> render \<Rightarrow> hook_state \<Rightarrow> hook_state" where
  "stopCapture e r s =
     (let s1 = s\<lparr>captureInterval := None, isRecording := False, isProcessing := True\<rparr>;
          s2 = (if frameBuffer s1 \<noteq> [] then processFrameBuffer e s1 else s1);
          s3 =
            (if seenAnalyses r \<noteq> [] then
               let s' = s2\<lparr>summarizePosted := summarizePosted s2 @ [seenAnalyses r]\<rparr>;
                   failed = (\<lambda>message.
                     complete e (''Failed to summarize analyses. Captured ''
                                   @ showNat (length (seenAnalyses r)) @ '' frames.'')
                       (s'\<lparr>error := Some (''Failed to summarize analyses: '' @ message)\<rparr>))
               in case summarizeApi e (seenAnalyses r) of
                    Throws thrown \<Rightarrow> failed (errorMessage thrown)
                  | Returns (status, summary) \<Rightarrow>
                      if \<not> responseOk status then
                        failed (''Summary API request failed with status '' @ showNat status)
                      else complete e
                             (case summary of
                                None \<Rightarrow> ''No summary available''
                              | Some text \<Rightarrow> if text = [] then ''No summary available'' else text)
                             s'
             else complete e
                    (''No frames were captured for analysis. Please try again and ensure ''
                       @ ''your screen is shared for at least a few seconds.'')
                    s2)
      in s3\<lparr>isProcessing := False, isCapturing := False\<rparr>)"

text \<open>
  One run of the interval callback registered by \<^verbatim>\<open>startPeriodicCapture\<close>, from the point
  where \<^verbatim>\<open>captureScreenshot\<close> has resolved. \<open>r\<close> is the render whose \<^verbatim>\<open>startCapture\<close> was
  called: the callback is registered once and keeps that render's \<^verbatim>\<open>captureCount\<close>.
\<close>

datatype tick = StreamInactive | Captured "string option"

definition captureTick :: "env \<Rightarrow> render \<Rightarrow> tick \<Rightarrow> hook_state \<Rightarrow> hook_state" where
  "captureTick e r t s =
     (case t of
        StreamInactive \<Rightarrow> stopCapture e r s
      | Captured None \<Rightarrow> s
      | Captured (Some screenshot) \<Rightarrow>
          if screenshot = [] then s
          else
            let frameHash = simpleHash screenshot;
                isDifferent = (lastFrameHash s \<noteq> frameHash)
            in
            if isDifferent \<or> length (frameBuffer s) = 0 then
              let newCount = seenCaptureCount r + 1;
                  s1 = s\<lparr>captureCount := newCount\<rparr>;
                  s2 = s1\<lparr>frameBuffer := frameBuffer s1 @ [screenshot],
                          lastFrameHash := frameHash\<rparr>;
                  s3 = notifyFrame e newCount s2;
                  s4 = (if isDifferent
                        then s3\<lparr>captureRate := max 500 (captureRate s3 - 100)\<rparr>
                        else s3\<lparr>captureRate := min 2000 (captureRate s3 + 100)\<rparr>)
              in if length (frameBuffer s4) \<ge> 5 then processFrameBuffer e s4 else s4
            else s)"

text \<open>The second timer of \<^verbatim>\<open>startPeriodicCapture\<close>, every 5000 ms.\<close>

definition bufferTimer :: "env \<Rightarrow> hook_state \<Rightarrow> hook_state" where
  "bufferTimer e s = (if length (frameBuffer s) > 0 then processFrameBuffer e s else s)"

datatype event = Tick tick | BufferTimer

definition step :: "env \<Rightarrow> render \<Rightarrow> hook_state \<Rightarrow> event \<Rightarrow> hook_state" where
  "step e r s ev = (case ev of Tick t \<Rightarrow> captureTick e r t s | BufferTimer \<Rightarrow> bufferTimer e s)"

text \<open>
  \<^verbatim>\<open>startCapture\<close>, called in the render of state \<open>s\<close>; \<open>acquired\<close> is what
  \<^verbatim>\<open>getDisplayMedia\<close> did. The closures it registers belong to the render of \<open>s\<close>.
\<close>

definition startCapture :: "unit outcome \<Rightarrow> hook_state \<Rightarrow> hook_state" where
  "startCapture acquired s =
     (let s1 = s\<lparr>error := None, isCapturing := True, analyses := [], captureCount := 0\<rparr> in
      case acquired of
        Returns _ \<Rightarrow> startPeriodicCapture (renderOf s) s1
      | Throws thrown \<Rightarrow>
          s1\<lparr>error := Some (''Failed to start screen sharing: '' @ errorMessage thrown),
             isCapturing := False\<rparr>)"

text \<open>
  A session: the stream is acquired in the render of \<open>s\<close>, and the events are handled in
  the order given by the closures of that render.
\<close>

definition session :: "env \<Rightarrow> hook_state \<Rightarrow> event list \<Rightarrow> hook_state" where
  "session e s evs = foldl (step e (renderOf s)) (startCapture (Returns ()) s) evs"

text \<open>
  Every frame that entered the pipeline so far, in order: the frames of the posted
  batches, then the frames still in the buffer.
\<close>

definition acceptedFrames :: "hook_state \<Rightarrow> string list" where
  "acceptedFrames s = concat (batchPosted s) @ frameBuffer s"

text \<open>Consecutive ticks that each captured a frame.\<close>

definition frames :: "string list \<Rightarrow> event list" where
  "frames screenshots = map (\<lambda>screenshot. Tick (Captured (Some screenshot))) screenshots"

section \<open>The batch endpoint (\<^verbatim>\<open>POST\<close>, api/analyze/batch/route.ts)\<close>

text \<open>
  A parsed request body. The route only tests a number for being zero, so numbers are
  integers here; an object is the list of its members, each key once.
\<close>

datatype json = JNull | JBool bool | JNum int | JStr string | JArr "json list"
  | JObj "(string \<times> json) list"

definition falsy :: "json \<Rightarrow> bool" where
  "falsy v = (case v of JNull \<Rightarrow> True | JBool b \<Rightarrow> \<not> b | JNum n \<Rightarrow> n = 0
              | JStr s \<Rightarrow> s = [] | _ \<Rightarrow> False)"

text \<open>
  \<^verbatim>\<open>const { images } = await req.json()\<close>: destructuring \<^verbatim>\<open>null\<close> throws a TypeError (the
  text is V8's), every other value has the property or yields \<^verbatim>\<open>undefined\<close> (\<open>None\<close>).
\<close>

definition destructureImages :: "json \<Rightarrow> json option outcome" where
  "destructureImages body =
     (case body of
        JNull \<Rightarrow>
          Throws (Some ''Cannot destructure property 'images' of '(intermediate value)' as it is null.'')
      | JObj members \<Rightarrow> Returns (map_of members ''images'')
      | _ \<Rightarrow> Returns None)"

text \<open>\<^verbatim>\<open>str.split(',')\<close> and the element \<^verbatim>\<open>[1]\<close> of the result.\<close>

fun split :: "char \<Rightarrow> string \<Rightarrow> string list" where
  "split sep [] = [[]]"
| "split sep (c # cs) =
     (if c = sep then [] # split sep cs
      else (case split sep cs of [] \<Rightarrow> [[c]] | piece # pieces \<Rightarrow> (c # piece) # pieces))"

definition second :: "'a list \<Rightarrow> 'a option" where
  "second xs = (case xs of _ # x # _ \<Rightarrow> Some x | _ \<Rightarrow> None)"

text \<open>
  The vision describer, \<^verbatim>\<open>openai.chat.completions.create\<close>, for the frame at a position of
  the request and the image URL sent: it throws, or the code reads
  \<^verbatim>\<open>response.choices[0].message.content\<close> (\<open>None\<close> for \<^verbatim>\<open>null\<close>). A reply without choices makes
  that read throw inside the same \<^verbatim>\<open>try\<close>, so it is a \<open>Throws\<close> as well.
\<close>

type_synonym describer = "nat \<Rightarrow> string \<Rightarrow> string option outcome"

text \<open>
  The callback of \<^verbatim>\<open>batch.map\<close> for the image at position \<open>k = i + index\<close>, in two parts:
  up to its \<^verbatim>\<open>await\<close> (it returns at once, or has called the describer with a URL), and from
  the describer's outcome on.
\<close>

datatype prepared = Done string | Await string

definition prepare :: "nat \<Rightarrow> json \<Rightarrow> prepared" where
  "prepare k imageData =
     (if falsy imageData then Done (''Image '' @ showNat k @ '' has invalid format'')
      else case imageData of
        JStr s \<Rightarrow>
          if \<not> prefix ''data:image/'' s
          then Done (''Image '' @ showNat k @ '' has invalid format'')
          else (case second (split CHR '','' s) of
                  None \<Rightarrow> Done (''Failed to extract base64 data from image '' @ showNat k)
                | Some base64Image \<Rightarrow>
                    if base64Image = []
                    then Done (''Failed to extract base64 data from image '' @ showNat k)
                    else Await (''data:image/jpeg;base64,'' @ base64Image))
      | _ \<Rightarrow> Done (''Error analyzing image '' @ showNat k
                    @ '': imageData.startsWith is not a function''))"

definition finish :: "nat \<Rightarrow> string option outcome \<Rightarrow> string" where
  "finish k described =
     (case described of
        Throws thrown \<Rightarrow> ''Error analyzing image '' @ showNat k @ '': '' @ errorMessage thrown
      | Returns content \<Rightarrow>
          (case content of
             None \<Rightarrow> ''No analysis available''
           | Some text \<Rightarrow> if text = [] then ''No analysis available'' else text))"

text \<open>What the callback's promise resolves to: the analysis record of one frame.\<close>

definition analysisOf :: "describer \<Rightarrow> nat \<Rightarrow> json \<Rightarrow> string" where
  "analysisOf describe k imageData =
     (case prepare k imageData of Done result \<Rightarrow> result | Await url \<Rightarrow> finish k (describe k url))"

text \<open>
  \<^verbatim>\<open>Promise.all\<close> over promises that never reject: a slot per promise, filled when the
  promise settles; it resolves, with the slots in order, once none is empty.
\<close>

definition promiseAll :: "'a option list \<Rightarrow> (nat \<times> 'a) list \<Rightarrow> 'a list option" where
  "promiseAll slots settlements =
     (let filled = foldl (\<lambda>sl (index, v). sl[index := Some v]) slots settlements in
      if list_all (\<lambda>slot. slot \<noteq> None) filled then Some (map the filled) else None)"

text \<open>
  The describer calls as they start and settle, by position. \<open>latency k\<close> is the time the
  call for position \<open>k\<close> takes: the calls of one \<^verbatim>\<open>Promise.all\<close> start together and settle in
  the order of their latencies, so every completion order is some latency assignment.
\<close>

datatype call_event = Started nat | Settled nat

definition concurrencyLimit :: nat where
  "concurrencyLimit = 3"

definition isAwait :: "prepared \<Rightarrow> bool" where
  "isAwait p = (case p of Await _ \<Rightarrow> True | Done _ \<Rightarrow> False)"

definition runBatch ::
  "describer \<Rightarrow> (nat \<Rightarrow> nat) \<Rightarrow> nat \<Rightarrow> json list \<Rightarrow> string list option \<times> call_event list" where
  "runBatch describe latency i batch =
     (let batchPromises = map (\<lambda>(index, imageData). prepare (i + index) imageData)
                            (enumerate 0 batch);
          started = filter (\<lambda>index. isAwait (batchPromises ! index)) [0..<length batch];
          settled = sort_key (\<lambda>index. latency (i + index)) started;
          slots = map (\<lambda>p. case p of Done result \<Rightarrow> Some result | Await _ \<Rightarrow> None)
                    batchPromises;
          settlements =
            map (\<lambda>index. (index, case batchPromises ! index of
                                     Await url \<Rightarrow> finish (i + index) (describe (i + index) url)
                                   | Done result \<Rightarrow> result))
              settled
      in (promiseAll slots settlements,
          map (\<lambda>index. Started (i + index)) started @ map (\<lambda>index. Settled (i + index)) settled))"

function processBatches ::
  "describer \<Rightarrow> (nat \<Rightarrow> nat) \<Rightarrow> json list \<Rightarrow> nat \<Rightarrow> string list \<Rightarrow> call_event list
     \<Rightarrow> (string list \<times> call_event list) option" where
  "processBatches describe latency images i results trace =
     (if i < length images then
        (case runBatch describe latency i (take concurrencyLimit (drop i images)) of
           (None, calls) \<Rightarrow> None
         | (Some batchResults, calls) \<Rightarrow>
             processBatches describe latency images (i + concurrencyLimit)
               (results @ batchResults) (trace @ calls))
      else Some (results, trace))"
  by pat_completeness auto
termination
  by (relation "measure (\<lambda>(describe, latency, images, i, results, trace). length images - i)")
     (auto simp: concurrencyLimit_def)

declare processBatches.simps [simp del]

datatype payload = ErrorPayload string | AnalysesPayload "string list"

record response =
  status :: nat
  payload :: payload

definition isArray :: "json \<Rightarrow> bool" where
  "isArray v = (case v of JArr _ \<Rightarrow> True | _ \<Rightarrow> False)"

definition elements :: "json \<Rightarrow> json list" where
  "elements v = (case v of JArr xs \<Rightarrow> xs | _ \<Rightarrow> [])"

definition serverError :: "string option \<Rightarrow> response" where
  "serverError thrown =
     \<lparr>status = 500,
      payload = ErrorPayload (case thrown of
                                Some message \<Rightarrow> ''Failed to analyze images: '' @ message
                              | None \<Rightarrow> ''Failed to analyze images'')\<rparr>"

text \<open>
  The handler. \<open>body\<close> is what \<^verbatim>\<open>req.json()\<close> did: it throws on a body that is not JSON.
  The result is the response and the describer calls made, or \<open>None\<close> if the handler
  never answers.
\<close>

definition POST ::
  "json outcome \<Rightarrow> describer \<Rightarrow> (nat \<Rightarrow> nat) \<Rightarrow> (response \<times> call_event list) option" where
  "POST body describe latency =
     (case body of
        Throws thrown \<Rightarrow> Some (serverError thrown, [])
      | Returns parsed \<Rightarrow>
          (case destructureImages parsed of
             Throws thrown \<Rightarrow> Some (serverError thrown, [])
           | Returns None \<Rightarrow>
               Some (\<lparr>status = 400, payload = ErrorPayload ''Images array is required''\<rparr>, [])
           | Returns (Some images) \<Rightarrow>
               if falsy images \<or> \<not> isArray images \<or> length (elements images) = 0
               then Some (\<lparr>status = 400, payload = ErrorPayload ''Images array is required''\<rparr>, [])
               else (case processBatches describe latency (elements images) 0 [] [] of
                       None \<Rightarrow> None
                     | Some (results, trace) \<Rightarrow>
                         Some (\<lparr>status = 200, payload = AnalysesPayload results\<rparr>, trace))))"

text \<open>The number of describer calls in flight after a trace.\<close>

definition inFlight :: "call_event list \<Rightarrow> int" where
  "inFlight trace =
     int (length (filter (\<lambda>ev. case ev of Started _ \<Rightarrow> True | Settled _ \<Rightarrow> False) trace))
     - int (length (filter (\<lambda>ev. case ev of Settled _ \<Rightarrow> True | Started _ \<Rightarrow> False) trace))"

section \<open>The earlier summarizer (\<^verbatim>\<open>summarizeAnalyses\<close>, components/ShareModal.tsx)\<close>

text \<open>
  The component that captured on its own, before the hook, summarizes through this
  function. \<open>api\<close> is what the summarize endpoint answers, as in the hook's surroundings;
  the result comes with the bodies posted to it. \<^verbatim>\<open>join\<close> is \<^verbatim>\<open>Array.prototype.join\<close>.
\<close>

fun join :: "string \<Rightarrow> string list \<Rightarrow> string" where
  "join sep [] = []"
| "join sep [x] = x"
| "join sep (x # y # ys) = x @ sep @ join sep (y # ys)"

definition summarizeAnalyses ::
  "(string list \<Rightarrow> (nat \<times> string option) outcome) \<Rightarrow> string list
     \<Rightarrow> string \<times> string list list" where
  "summarizeAnalyses api allAnalyses =
     (if length allAnalyses = 0 then (''No frames were successfully analyzed.'', [])
      else if length allAnalyses = 1 then (allAnalyses ! 0, [])
      else
        let fallback = ''Failed to generate summary. Individual frame analyses:''
                         @ [CHR 0x0A, CHR 0x0A] @ join [CHR 0x0A, CHR 0x0A] allAnalyses
        in case api allAnalyses of
             Throws thrown \<Rightarrow> (fallback, [allAnalyses])
           | Returns (code, summary) \<Rightarrow>
               if \<not> responseOk code then (fallback, [allAnalyses])
               else (case summary of
                       None \<Rightarrow> ''No summary available''
                     | Some found \<Rightarrow> if found = [] then ''No summary available'' else found,
                     [allAnalyses]))"

section \<open>Observations and sample inputs\<close>

text \<open>
  Consecutive frame evaluations that are each judged different: every frame is a captured
  screenshot whose fingerprint differs from the one stored before it.
\<close>

fun judgedDifferent :: "string \<Rightarrow> string list \<Rightarrow> bool" where
  "judgedDifferent stored [] = True"
| "judgedDifferent stored (screenshot # rest) =
     (screenshot \<noteq> [] \<and> stored \<noteq> simpleHash screenshot
      \<and> judgedDifferent (simpleHash screenshot) rest)"

text \<open>Two frames with different fingerprints, and surroundings that answer every request.\<close>

definition frameA :: string where
  "frameA = ''data:image/jpeg;base64,/9j/4AAQSkZJRg==''"

definition frameB :: string where
  "frameB = ''data:image/jpeg;base64,/9j/4AAQSkZJRh==''"

definition demoEnv :: env where
  "demoEnv = \<lparr>onFrameCapture = True, onAnalysisComplete = True,
     batchApi = (\<lambda>screenshots. Returns (200, Some (map (\<lambda>_. ''a page'') screenshots))),
     summarizeApi = (\<lambda>texts. Returns (200, Some ''a summary''))\<rparr>"

text \<open>The same surroundings with the summarize endpoint out of reach.\<close>

definition offlineEnv :: env where
  "offlineEnv = demoEnv\<lparr>summarizeApi := (\<lambda>texts. Throws (Some ''Failed to fetch''))\<rparr>"

definition demoRender :: "string list \<Rightarrow> render" where
  "demoRender records = \<lparr>seenCaptureCount = 0, seenCaptureRate = 1000, seenAnalyses = records\<rparr>"

text \<open>
  The \<^verbatim>\<open>images\<close> member of a parsed body, \<open>None\<close> when it has none, and the body the hook
  posts, \<^verbatim>\<open>JSON.stringify({ images: screenshots })\<close>.
\<close>

definition imagesField :: "json \<Rightarrow> json option" where
  "imagesField parsed = (case parsed of JObj members \<Rightarrow> map_of members ''images'' | _ \<Rightarrow> None)"

definition batchBody :: "json list \<Rightarrow> json" where
  "batchBody images = JObj [(''images'', JArr images)]"

text \<open>
  A request of five images, the fourth not a data URL; a describer that fails for the
  image at position 1; and latencies under which later calls settle first.
\<close>

definition demoImages :: "json list" where
  "demoImages = [JStr frameA, JStr frameB, JStr frameA, JStr ''no image'', JStr frameB]"

definition demoDescribe :: describer where
  "demoDescribe k url = (if k = 1 then Throws (Some ''Request timed out.'')
                         else Returns (Some ''a page''))"

definition demoLatency :: "nat \<Rightarrow> nat" where
  "demoLatency k = 10 - k"

section \<open>Rendering and fingerprints\<close>

lemma showRadix_nonempty: "showRadix b n \<noteq> []"
  by (subst showRadix.simps) simp

lemma simpleHash_nonempty: "simpleHash str \<noteq> []"
  by (simp add: simpleHash_def toString16_def showRadix_nonempty)

lemma simpleHash_nonempty': "[] \<noteq> simpleHash str"
  using simpleHash_nonempty [of str] by simp

lemma showNat_digit: "n < 10 \<Longrightarrow> showNat n = [digitChar n]"
  by (simp add: showNat_def showRadix.simps)

lemma showNat_2: "showNat (Suc (Suc 0)) = ''2''"
  by (simp add: showNat_def showRadix.simps digitChar_def)

lemma frameA_B: "frameA \<noteq> []" "frameB \<noteq> []" "simpleHash frameA \<noteq> simpleHash frameB"
  by (simp_all add: frameA_def frameB_def simpleHash_def hashStep_def toString16_def
        showRadix.simps digitChar_def)

section \<open>The capture loop: what its steps change\<close>

lemma analyzeScreenshots_fields:
  "captureRate (analyzeScreenshots e xs s) = captureRate s"
  "lastFrameHash (analyzeScreenshots e xs s) = lastFrameHash s"
  "frameBuffer (analyzeScreenshots e xs s) = frameBuffer s"
  "frameCaptured (analyzeScreenshots e xs s) = frameCaptured s"
  "captureInterval (analyzeScreenshots e xs s) = captureInterval s"
  "summarizePosted (analyzeScreenshots e xs s) = summarizePosted s"
  "analysisCompleted (analyzeScreenshots e xs s) = analysisCompleted s"
  "batchPosted (analyzeScreenshots e xs s) = (if xs = [] then batchPosted s else batchPosted s @ [xs])"
  by (simp_all add: analyzeScreenshots_def Let_def split: outcome.split option.split prod.split)

lemma processFrameBuffer_fields:
  "captureRate (processFrameBuffer e s) = captureRate s"
  "lastFrameHash (processFrameBuffer e s) = lastFrameHash s"
  "frameBuffer (processFrameBuffer e s) = []"
  "frameCaptured (processFrameBuffer e s) = frameCaptured s"
  "captureInterval (processFrameBuffer e s) = captureInterval s"
  "summarizePosted (processFrameBuffer e s) = summarizePosted s"
  "analysisCompleted (processFrameBuffer e s) = analysisCompleted s"
  "batchPosted (processFrameBuffer e s) =
     (if frameBuffer s = [] then batchPosted s else batchPosted s @ [frameBuffer s])"
  by (simp_all add: processFrameBuffer_def Let_def analyzeScreenshots_fields)

lemma notifyFrame_fields:
  "captureRate (notifyFrame e n s) = captureRate s"
  "lastFrameHash (notifyFrame e n s) = lastFrameHash s"
  "frameBuffer (notifyFrame e n s) = frameBuffer s"
  "batchPosted (notifyFrame e n s) = batchPosted s"
  "captureInterval (notifyFrame e n s) = captureInterval s"
  by (simp_all add: notifyFrame_def)

lemma complete_fields:
  "captureRate (complete e a s) = captureRate s"
  "summarizePosted (complete e a s) = summarizePosted s"
  "analysisCompleted (complete e a s) =
     (if onAnalysisComplete e then analysisCompleted s @ [a] else analysisCompleted s)"
  by (simp_all add: complete_def)

lemma startCapture_fields:
  "frameBuffer (startCapture (Returns u) s) = []"
  "lastFrameHash (startCapture (Returns u) s) = []"
  "captureRate (startCapture (Returns u) s) = captureRate s"
  "captureInterval (startCapture (Returns u) s) = Some (captureRate s)"
  "frameCaptured (startCapture (Returns u) s) = frameCaptured s"
  by (simp_all add: startCapture_def startPeriodicCapture_def renderOf_def Let_def)

lemma tick_discards:
  "lastFrameHash s = simpleHash screenshot \<Longrightarrow> frameBuffer s \<noteq> [] \<Longrightarrow>
   captureTick e r (Captured (Some screenshot)) s = s"
  by (simp add: captureTick_def Let_def)

lemma tick_keeps:
  assumes "screenshot \<noteq> []" "lastFrameHash s \<noteq> simpleHash screenshot \<or> frameBuffer s = []"
  shows "acceptedFrames (captureTick e r (Captured (Some screenshot)) s) = acceptedFrames s @ [screenshot]"
    and "lastFrameHash (captureTick e r (Captured (Some screenshot)) s) = simpleHash screenshot"
    and "captureRate (captureTick e r (Captured (Some screenshot)) s) =
           (if lastFrameHash s \<noteq> simpleHash screenshot then max 500 (captureRate s - 100)
            else min 2000 (captureRate s + 100))"
  using assms
  by (auto simp add: captureTick_def Let_def processFrameBuffer_fields notifyFrame_fields acceptedFrames_def)

lemma step_frames:
  "foldl (step e r) s (frames (x # xs)) = foldl (step e r) (captureTick e r (Captured (Some x)) s) (frames xs)"
  "foldl (step e r) s (frames []) = s"
  by (simp_all add: frames_def step_def)

lemmas hook_defs = session_def startCapture_def startPeriodicCapture_def renderOf_def
  initialState_def captureTick_def step_def frames_def Let_def notifyFrame_def
  processFrameBuffer_def analyzeScreenshots_def bufferTimer_def acceptedFrames_def
  responseOk_def complete_def stopCapture_def

section \<open>The frame differ\<close>

lemma identical_run_discarded:
  "\<forall>x\<in>set rest. simpleHash x = lastFrameHash s \<Longrightarrow> frameBuffer s \<noteq> [] \<Longrightarrow>
   foldl (step e r) s (frames rest) = s"
  by (induction rest) (simp_all add: step_frames tick_discards)

text \<open>
  Claim C1, as the code has it. An evaluated frame is kept if and only if its fingerprint
  differs from the stored one or the frame buffer is empty at that moment; the stored
  fingerprint becomes the frame's exactly when it is kept. The buffer is empty when a
  session starts, so its first frame is kept. After a kept frame that left the buffer
  non-empty, further frames with the same fingerprint change nothing.
\<close>

theorem differ_keeps_changed_or_buffer_empty:
  "screenshot \<noteq> [] \<longrightarrow>
     acceptedFrames (captureTick e r (Captured (Some screenshot)) s) =
       (if lastFrameHash s \<noteq> simpleHash screenshot \<or> frameBuffer s = []
        then acceptedFrames s @ [screenshot] else acceptedFrames s)
     \<and> lastFrameHash (captureTick e r (Captured (Some screenshot)) s) =
       (if lastFrameHash s \<noteq> simpleHash screenshot \<or> frameBuffer s = []
        then simpleHash screenshot else lastFrameHash s)
     \<and> acceptedFrames (session e s (frames [screenshot])) =
         acceptedFrames (session e s []) @ [screenshot]
     \<and> ((\<forall>x\<in>set rest. simpleHash x = simpleHash screenshot)
          \<and> frameBuffer (captureTick e r (Captured (Some screenshot)) s) \<noteq> []
        \<longrightarrow> foldl (step e r) (captureTick e r (Captured (Some screenshot)) s) (frames rest)
              = captureTick e r (Captured (Some screenshot)) s)"
proof (intro impI conjI)
  assume ne: "screenshot \<noteq> []"
  let ?t = "captureTick e r (Captured (Some screenshot)) s"
  show "acceptedFrames ?t =
       (if lastFrameHash s \<noteq> simpleHash screenshot \<or> frameBuffer s = []
        then acceptedFrames s @ [screenshot] else acceptedFrames s)"
    using ne by (simp add: tick_keeps tick_discards)
  show stored: "lastFrameHash ?t =
       (if lastFrameHash s \<noteq> simpleHash screenshot \<or> frameBuffer s = []
        then simpleHash screenshot else lastFrameHash s)"
    using ne by (simp add: tick_keeps tick_discards)
  show "acceptedFrames (session e s (frames [screenshot])) =
         acceptedFrames (session e s []) @ [screenshot]"
    using ne by (simp add: session_def step_frames tick_keeps startCapture_fields)
  assume "(\<forall>x\<in>set rest. simpleHash x = simpleHash screenshot) \<and> frameBuffer ?t \<noteq> []"
  moreover have "lastFrameHash ?t = simpleHash screenshot"
    using stored by (simp split: if_splits)
  ultimately show "foldl (step e r) ?t (frames rest) = ?t"
    by (simp add: identical_run_discarded)
qed

theorem differ_keeps_witness:
  "acceptedFrames (captureTick demoEnv (renderOf initialState) (Captured (Some frameA))
       (session demoEnv initialState [])) = [frameA]
   \<and> foldl (step demoEnv (renderOf initialState))
        (captureTick demoEnv (renderOf initialState) (Captured (Some frameA))
           (session demoEnv initialState []))
        (frames [frameA, frameA])
      = captureTick demoEnv (renderOf initialState) (Captured (Some frameA))
          (session demoEnv initialState [])"
  using differ_keeps_changed_or_buffer_empty
    [where screenshot = frameA and e = demoEnv and r = "renderOf initialState"
       and s = "session demoEnv initialState []" and rest = "[frameA, frameA]"]
  by (simp add: hook_defs demoEnv_def frameA_B simpleHash_nonempty simpleHash_nonempty')

text \<open>
  The buffer is also empty after every flush: a frame whose fingerprint equals the stored
  one is kept again when the buffer timer has fired in between.
\<close>

theorem identical_frame_kept_again_after_flush:
  "lastFrameHash (session demoEnv initialState [Tick (Captured (Some frameA)), BufferTimer])
     = simpleHash frameA
   \<and> acceptedFrames (session demoEnv initialState [Tick (Captured (Some frameA)), BufferTimer])
     = [frameA]
   \<and> acceptedFrames (session demoEnv initialState
        [Tick (Captured (Some frameA)), BufferTimer, Tick (Captured (Some frameA))])
     = [frameA, frameA]"
  by (simp add: hook_defs demoEnv_def frameA_B simpleHash_nonempty simpleHash_nonempty')

section \<open>The adaptive delay\<close>

lemma stopCapture_captureRate: "captureRate (stopCapture e r s) = captureRate s"
  by (simp add: stopCapture_def Let_def complete_fields processFrameBuffer_fields
        split: outcome.split prod.split option.split)

lemma captureTick_captureRate:
  "captureRate (captureTick e r t s) = captureRate s
   \<or> captureRate (captureTick e r t s) = max 500 (captureRate s - 100)
   \<or> captureRate (captureTick e r t s) = min 2000 (captureRate s + 100)"
  by (simp add: captureTick_def Let_def stopCapture_captureRate processFrameBuffer_fields
        notifyFrame_fields split: tick.split option.split)

lemma step_rate_bounds:
  assumes "500 \<le> captureRate s" "captureRate s \<le> 2000"
  shows "500 \<le> captureRate (step e r s ev) \<and> captureRate (step e r s ev) \<le> 2000"
proof (cases ev)
  case (Tick t)
  then show ?thesis
    using assms captureTick_captureRate [of e r t s] by (auto simp: step_def)
next
  case BufferTimer
  then show ?thesis
    using assms by (simp add: step_def bufferTimer_def processFrameBuffer_fields)
qed

lemma run_rate_bounds:
  "500 \<le> captureRate s \<Longrightarrow> captureRate s \<le> 2000 \<Longrightarrow>
   500 \<le> captureRate (foldl (step e r) s evs) \<and> captureRate (foldl (step e r) s evs) \<le> 2000"
proof (induction evs arbitrary: s)
  case Nil
  then show ?case by simp
next
  case (Cons ev evs)
  then show ?case using step_rate_bounds [of s e r ev] by simp
qed

lemma different_run_rate:
  "judgedDifferent (lastFrameHash s) screenshots \<Longrightarrow> 500 \<le> captureRate s \<Longrightarrow>
   captureRate (foldl (step e r) s (frames screenshots))
     = max 500 (captureRate s - 100 * int (length screenshots))"
proof (induction screenshots arbitrary: s)
  case Nil
  then show ?case by (simp add: step_frames)
next
  case (Cons x xs)
  let ?t = "captureTick e r (Captured (Some x)) s"
  from Cons.prems have x: "x \<noteq> []" "lastFrameHash s \<noteq> simpleHash x"
    and rest: "judgedDifferent (simpleHash x) xs" by simp_all
  have stored: "lastFrameHash ?t = simpleHash x" using x by (simp add: tick_keeps)
  have rate: "captureRate ?t = max 500 (captureRate s - 100)" using x by (simp add: tick_keeps)
  have "captureRate (foldl (step e r) ?t (frames xs))
          = max 500 (captureRate ?t - 100 * int (length xs))"
    using rest stored rate by (intro Cons.IH) simp_all
  then show ?case using rate Cons.prems(2) by (simp add: step_frames)
qed

text \<open>
  Claim C6, as the code has it. The delay is adjusted only when a frame is kept. From the
  initial 1000 ms, \<open>N\<close> consecutive evaluations judged different leave it at
  \<open>max 500 (1000 - 100 * N)\<close>, each one lowering it by 100 down to 500. An evaluation
  judged unchanged raises it by 100, up to 2000, when the frame buffer is empty at that
  moment, and leaves it as it is otherwise. A delay within 500 and 2000 stays there.
\<close>

theorem adaptive_rate_follows_kept_frames:
  "(judgedDifferent [] screenshots \<longrightarrow>
      captureRate (session e initialState (frames screenshots))
        = max 500 (1000 - 100 * int (length screenshots)))
   \<and> (screenshot \<noteq> [] \<and> lastFrameHash s \<noteq> simpleHash screenshot \<longrightarrow>
        captureRate (captureTick e r (Captured (Some screenshot)) s)
          = max 500 (captureRate s - 100))
   \<and> (screenshot \<noteq> [] \<and> lastFrameHash s = simpleHash screenshot \<and> frameBuffer s = [] \<longrightarrow>
        captureRate (captureTick e r (Captured (Some screenshot)) s)
          = min 2000 (captureRate s + 100))
   \<and> (lastFrameHash s = simpleHash screenshot \<and> frameBuffer s \<noteq> [] \<longrightarrow>
        captureRate (captureTick e r (Captured (Some screenshot)) s) = captureRate s)
   \<and> (500 \<le> captureRate s \<and> captureRate s \<le> 2000 \<longrightarrow>
        500 \<le> captureRate (foldl (step e r) s evs)
        \<and> captureRate (foldl (step e r) s evs) \<le> 2000)"
proof (intro conjI impI)
  assume "judgedDifferent [] screenshots"
  then have "captureRate (foldl (step e (renderOf initialState))
                 (startCapture (Returns ()) initialState) (frames screenshots))
               = max 500 (captureRate (startCapture (Returns ()) initialState)
                            - 100 * int (length screenshots))"
    by (intro different_run_rate) (simp_all add: startCapture_fields initialState_def)
  then show "captureRate (session e initialState (frames screenshots))
        = max 500 (1000 - 100 * int (length screenshots))"
    by (simp add: session_def startCapture_fields) (simp add: initialState_def)
next
  assume "screenshot \<noteq> [] \<and> lastFrameHash s \<noteq> simpleHash screenshot"
  then show "captureRate (captureTick e r (Captured (Some screenshot)) s)
          = max 500 (captureRate s - 100)"
    by (simp add: tick_keeps)
next
  assume "screenshot \<noteq> [] \<and> lastFrameHash s = simpleHash screenshot \<and> frameBuffer s = []"
  then show "captureRate (captureTick e r (Captured (Some screenshot)) s)
          = min 2000 (captureRate s + 100)"
    by (simp add: tick_keeps)
next
  assume "lastFrameHash s = simpleHash screenshot \<and> frameBuffer s \<noteq> []"
  then show "captureRate (captureTick e r (Captured (Some screenshot)) s) = captureRate s"
    by (simp add: tick_discards)
next
  assume b: "500 \<le> captureRate s \<and> captureRate s \<le> 2000"
  then show "500 \<le> captureRate (foldl (step e r) s evs)"
    using run_rate_bounds [of s e r evs] by simp
  from b show "captureRate (foldl (step e r) s evs) \<le> 2000"
    using run_rate_bounds [of s e r evs] by simp
qed

theorem adaptive_rate_witness:
  "captureRate (session demoEnv initialState (frames [frameA, frameB, frameA])) = 700
   \<and> captureRate (captureTick demoEnv (renderOf initialState) (Captured (Some frameA))
        (session demoEnv initialState [Tick (Captured (Some frameA)), BufferTimer])) = 1000
   \<and> captureRate (captureTick demoEnv (renderOf initialState) (Captured (Some frameA))
        (session demoEnv initialState [Tick (Captured (Some frameA))])) = 900
   \<and> 500 \<le> captureRate (foldl (step demoEnv (renderOf initialState))
        (session demoEnv initialState [Tick (Captured (Some frameA))])
        [BufferTimer, Tick (Captured (Some frameB)), Tick StreamInactive])"
  using adaptive_rate_follows_kept_frames
    [where screenshots = "[frameA, frameB, frameA]" and e = demoEnv and screenshot = frameA
       and r = "renderOf initialState"
       and s = "session demoEnv initialState [Tick (Captured (Some frameA)), BufferTimer]"
       and evs = "[]"]
    adaptive_rate_follows_kept_frames
    [where screenshots = "[]" and e = demoEnv and screenshot = frameA
       and r = "renderOf initialState"
       and s = "session demoEnv initialState [Tick (Captured (Some frameA))]"
       and evs = "[BufferTimer, Tick (Captured (Some frameB)), Tick StreamInactive]"]
  by (simp add: hook_defs demoEnv_def frameA_B frameA_B(3)[symmetric] simpleHash_nonempty simpleHash_nonempty')

text \<open>
  An unchanged frame met with a non-empty buffer leaves the delay as it is: 900 stays 900,
  and a delay of 1000 is still 1000 after two unchanged evaluations in a row.
\<close>

theorem unchanged_frame_leaves_rate:
  "captureRate (session demoEnv initialState (frames [frameA])) = 900
   \<and> captureRate (session demoEnv initialState (frames [frameA, frameA])) = 900
   \<and> captureRate (session demoEnv initialState
        [Tick (Captured (Some frameA)), BufferTimer, Tick (Captured (Some frameA))]) = 1000
   \<and> captureRate (session demoEnv initialState
        [Tick (Captured (Some frameA)), BufferTimer, Tick (Captured (Some frameA)),
         Tick (Captured (Some frameA)), Tick (Captured (Some frameA))]) = 1000"
  by (simp add: hook_defs demoEnv_def frameA_B simpleHash_nonempty simpleHash_nonempty')

text \<open>
  Claim C7 on the code: the first tick of a first session lowers \<^verbatim>\<open>captureRate\<close> to 900,
  and the interval that schedules the next tick still has the period 1000 it was
  registered with.
\<close>

theorem interval_keeps_initial_period:
  "captureRate (session demoEnv initialState (frames [frameA])) = 900
   \<and> captureInterval (session demoEnv initialState (frames [frameA])) = Some 1000"
  by (simp add: hook_defs demoEnv_def frameA_B simpleHash_nonempty simpleHash_nonempty')

section \<open>The frame count\<close>

text \<open>
  Claim C9 on the code: in a first session two frames with different fingerprints are
  both kept, and both notifications carry the count 1. The callback adds one to the
  \<^verbatim>\<open>captureCount\<close> of the render that registered it.
\<close>

theorem notification_count_stays_one:
  "acceptedFrames (session demoEnv initialState (frames [frameA, frameB])) = [frameA, frameB]
   \<and> frameCaptured (session demoEnv initialState (frames [frameA, frameB])) = [1, 1]"
  by (simp add: hook_defs demoEnv_def frameA_B simpleHash_nonempty simpleHash_nonempty')

section \<open>The final summary\<close>

lemma stopCapture_posted:
  "summarizePosted (stopCapture e r s) =
     (if seenAnalyses r = [] then summarizePosted s else summarizePosted s @ [seenAnalyses r])"
  by (simp add: stopCapture_def Let_def complete_fields processFrameBuffer_fields
        split: outcome.split prod.split option.split)

text \<open>
  What \<^verbatim>\<open>stopCapture\<close> hands to \<^verbatim>\<open>onAnalysisComplete\<close>. The analysis records it reads are
  those of its render. With none, the result is the fixed message and the summarize
  endpoint is not called. With one or more, exactly one included, the endpoint is called
  once with all of them, and a non-empty summary in an OK reply is the result.
\<close>

lemma stopCapture_results:
  "onAnalysisComplete e \<longrightarrow>
     (seenAnalyses r = [] \<longrightarrow>
        analysisCompleted (stopCapture e r s) = analysisCompleted s @
          [''No frames were captured for analysis. Please try again and ensure your screen is shared for at least a few seconds.'']
        \<and> summarizePosted (stopCapture e r s) = summarizePosted s)
     \<and> (seenAnalyses r \<noteq> [] \<longrightarrow>
          summarizePosted (stopCapture e r s) = summarizePosted s @ [seenAnalyses r])
     \<and> (seenAnalyses r \<noteq> [] \<and> summarizeApi e (seenAnalyses r) = Returns (code, Some summary)
          \<and> responseOk code \<and> summary \<noteq> [] \<longrightarrow>
          analysisCompleted (stopCapture e r s) = analysisCompleted s @ [summary])"
  by (simp add: stopCapture_posted)
     (simp add: stopCapture_def Let_def complete_fields processFrameBuffer_fields)

text \<open>
  Claim C5 on the code: with exactly one analysis record \<^verbatim>\<open>stopCapture\<close> posts it to the
  summarize endpoint, and the endpoint's answer is the result, not the record's text.
\<close>

theorem single_record_is_summarized:
  "analysisCompleted (stopCapture demoEnv (demoRender [''first page'']) initialState)
     = [''a summary'']
   \<and> summarizePosted (stopCapture demoEnv (demoRender [''first page'']) initialState)
     = [[''first page'']]"
  by (simp add: hook_defs demoEnv_def demoRender_def)

text \<open>
  Claim C4 on the code: with two analysis records and the summarize request failing, the
  text handed to \<^verbatim>\<open>onAnalysisComplete\<close> names the number of frames and holds none of the
  records' texts.
\<close>

theorem summary_failure_reports_count_only:
  "analysisCompleted (stopCapture offlineEnv (demoRender [''first page'', ''second page''])
      initialState) = [''Failed to summarize analyses. Captured 2 frames.'']"
  by (simp add: hook_defs demoEnv_def offlineEnv_def demoRender_def errorMessage_def showNat_2)

text \<open>
  The earlier summarizer does both: a single record is returned as it is, without a
  request, and when the request fails the result is a note followed by all the records'
  texts.
\<close>

lemma summarizeAnalyses_single: "summarizeAnalyses api [record] = (record, [])"
  by (simp add: summarizeAnalyses_def)

lemma summarizeAnalyses_fallback:
  "2 \<le> length records \<Longrightarrow> api records = Throws thrown \<Longrightarrow>
   summarizeAnalyses api records
     = (''Failed to generate summary. Individual frame analyses:''
          @ [CHR 0x0A, CHR 0x0A] @ join [CHR 0x0A, CHR 0x0A] records, [records])"
  by (cases records) (auto simp: summarizeAnalyses_def Let_def)

section \<open>The batch endpoint: one slice\<close>

lemma fill_length:
  "length (foldl (\<lambda>sl (index, v). sl[index := Some v]) slots settlements) = length slots"
  by (induction settlements arbitrary: slots) (auto split: prod.split)

lemma fill_nth:
  "m < length slots \<Longrightarrow>
   foldl (\<lambda>sl (index, v). sl[index := Some v]) slots (map (\<lambda>index. (index, g index)) js) ! m
     = (if m \<in> set js then Some (g m) else slots ! m)"
proof (induction js arbitrary: slots)
  case Nil
  then show ?case by simp
next
  case (Cons j js)
  then show ?case by (auto simp: nth_list_update)
qed

lemma runBatch_results:
  "fst (runBatch describe latency i batch)
     = Some (map (\<lambda>(k, imageData). analysisOf describe k imageData) (enumerate i batch))"
proof -
  define promises where
    "promises = map (\<lambda>(index, imageData). prepare (i + index) imageData) (enumerate 0 batch)"
  define settled where
    "settled = sort_key (\<lambda>index. latency (i + index))
                 (filter (\<lambda>index. isAwait (promises ! index)) [0..<length batch])"
  define slots where
    "slots = map (\<lambda>p. case p of Done result \<Rightarrow> Some result | Await _ \<Rightarrow> None) promises"
  define g where
    "g = (\<lambda>index. case promises ! index of
                Await url \<Rightarrow> finish (i + index) (describe (i + index) url)
              | Done result \<Rightarrow> result)"
  define filled where
    "filled = foldl (\<lambda>sl (index, v). sl[index := Some v]) slots
                (map (\<lambda>index. (index, g index)) settled)"
  have promises_nth: "promises ! m = prepare (i + m) (batch ! m)" if "m < length batch" for m
    using that by (simp add: promises_def nth_enumerate_eq)
  have len: "length filled = length batch"
    by (simp add: filled_def fill_length slots_def promises_def)
  have nth: "filled ! m = Some (analysisOf describe (i + m) (batch ! m))"
    if m: "m < length batch" for m
  proof -
    have "filled ! m = (if m \<in> set settled then Some (g m) else slots ! m)"
      unfolding filled_def using m by (intro fill_nth) (simp add: slots_def promises_def)
    also have "\<dots> = Some (analysisOf describe (i + m) (batch ! m))"
      using m promises_nth [OF m]
      by (auto simp: settled_def g_def slots_def analysisOf_def isAwait_def promises_def
            split: prepared.splits)
    finally show ?thesis .
  qed
  have filled: "filled = map (\<lambda>(k, imageData). Some (analysisOf describe k imageData))
                           (enumerate i batch)"
  proof (rule nth_equalityI)
    show "length filled
            = length (map (\<lambda>(k, imageData). Some (analysisOf describe k imageData))
                        (enumerate i batch))"
      by (simp add: len)
    fix m assume "m < length filled"
    then have m: "m < length batch" by (simp add: len)
    then show "filled ! m
            = map (\<lambda>(k, imageData). Some (analysisOf describe k imageData))
                (enumerate i batch) ! m"
      by (simp add: nth [OF m] nth_enumerate_eq)
  qed
  have "promiseAll slots (map (\<lambda>index. (index, g index)) settled)
          = Some (map (\<lambda>(k, imageData). analysisOf describe k imageData) (enumerate i batch))"
    unfolding promiseAll_def Let_def filled_def [symmetric]
    by (simp add: filled list_all_iff split_beta comp_def)
  then show ?thesis
    by (simp add: runBatch_def Let_def promises_def settled_def slots_def g_def)
qed

lemma runBatch_calls:
  "\<exists>started settled.
     snd (runBatch describe latency i batch)
       = map (\<lambda>index. Started (i + index)) started @ map (\<lambda>index. Settled (i + index)) settled
     \<and> length settled = length started \<and> length started \<le> length batch"
proof -
  define promises where
    "promises = map (\<lambda>(index, imageData). prepare (i + index) imageData) (enumerate 0 batch)"
  define started where
    "started = filter (\<lambda>index. isAwait (promises ! index)) [0..<length batch]"
  define settled where "settled = sort_key (\<lambda>index. latency (i + index)) started"
  have "snd (runBatch describe latency i batch)
       = map (\<lambda>index. Started (i + index)) started @ map (\<lambda>index. Settled (i + index)) settled"
    by (simp add: runBatch_def Let_def promises_def started_def settled_def)
  moreover have "length settled = length started"
    by (simp add: settled_def)
  moreover have "length started \<le> length batch"
    unfolding started_def using length_filter_le [of _ "[0..<length batch]"] by simp
  ultimately show ?thesis by blast
qed

text \<open>
  The latencies cover every completion order: for the calls a slice has started, any
  order in which each of them settles once is the order of some latency assignment.
\<close>

lemma place_in_order:
  "distinct order \<Longrightarrow>
   map (\<lambda>x. length (takeWhile (\<lambda>y. y \<noteq> x) order)) order = [0..<length order]"
proof (induction order)
  case Nil
  then show ?case by simp
next
  case (Cons a order)
  then have "map (\<lambda>x. length (takeWhile (\<lambda>y. y \<noteq> x) (a # order))) order
               = map (\<lambda>x. Suc (length (takeWhile (\<lambda>y. y \<noteq> x) order))) order"
    by (intro map_cong) auto
  also have "\<dots> = map Suc (map (\<lambda>x. length (takeWhile (\<lambda>y. y \<noteq> x) order)) order)"
    by simp
  also have "\<dots> = [Suc 0..<Suc (length order)]"
    using Cons by (simp add: map_Suc_upt)
  finally have "map (\<lambda>x. length (takeWhile (\<lambda>y. y \<noteq> x) (a # order))) order
                  = [Suc 0..<Suc (length order)]" .
  moreover have "[0..<length (a # order)] = 0 # [Suc 0..<Suc (length order)]"
    using upt_conv_Cons [of 0 "Suc (length order)"] by simp
  ultimately show ?case by simp
qed

lemma every_completion_order_has_latencies:
  fixes i :: nat and started :: "nat list"
  assumes "distinct order" and "set order = set started" and "distinct started"
  shows "\<exists>latency :: nat \<Rightarrow> nat. sort_key (\<lambda>index. latency (i + index)) started = order"
proof -
  define place where "place = (\<lambda>x. length (takeWhile (\<lambda>y. y \<noteq> x) order))"
  have places: "map place order = [0..<length order]"
    unfolding place_def using assms(1) by (rule place_in_order)
  then have inj: "inj_on place (set order)"
    using distinct_map [of place order] by simp
  have "sorted (map place (sort_key place started))"
    by (rule sorted_sort_key)
  moreover have "distinct (map place (sort_key place started))"
    using inj assms by (simp add: distinct_map)
  moreover have "sorted (map place order)" "distinct (map place order)"
    by (simp_all add: places)
  moreover have "set (map place (sort_key place started)) = set (map place order)"
    using assms(2) by simp
  ultimately have "map place (sort_key place started) = map place order"
    by (intro sorted_distinct_set_unique)
  then have "sort_key place started = order"
    using inj assms(2) by (simp add: inj_on_map_eq_map)
  then have "sort_key (\<lambda>index. (\<lambda>k. place (k - i)) (i + index)) started = order"
    by simp
  then show ?thesis by (rule exI [where x = "\<lambda>k. place (k - i)"])
qed

section \<open>The batch endpoint: the loop and the handler\<close>

lemma inFlight_append: "inFlight (a @ b) = inFlight a + inFlight b"
  by (simp add: inFlight_def)

lemma inFlight_started: "inFlight (map (\<lambda>x. Started (f x)) xs) = int (length xs)"
  by (simp add: inFlight_def comp_def)

lemma inFlight_settled: "inFlight (map (\<lambda>x. Settled (f x)) xs) = - int (length xs)"
  by (simp add: inFlight_def comp_def)

lemma calls_within_limit:
  assumes "inFlight trace = 0" and "\<forall>n. inFlight (take n trace) \<le> 3"
    and "length settled = length started" and "length started \<le> 3"
  shows "inFlight (trace @ map (\<lambda>x. Started (f x)) started @ map (\<lambda>x. Settled (g x)) settled) = 0"
    and "\<forall>n. inFlight (take n (trace @ map (\<lambda>x. Started (f x)) started
                                 @ map (\<lambda>x. Settled (g x)) settled)) \<le> 3"
proof -
  show "inFlight (trace @ map (\<lambda>x. Started (f x)) started @ map (\<lambda>x. Settled (g x)) settled) = 0"
    using assms by (simp add: inFlight_append inFlight_started inFlight_settled)
  show "\<forall>n. inFlight (take n (trace @ map (\<lambda>x. Started (f x)) started
                                 @ map (\<lambda>x. Settled (g x)) settled)) \<le> 3"
  proof
    fix n
    show "inFlight (take n (trace @ map (\<lambda>x. Started (f x)) started
                                 @ map (\<lambda>x. Settled (g x)) settled)) \<le> 3"
    proof (cases "n \<le> length trace")
      case True
      then show ?thesis using assms(2) by simp
    next
      case False
      then have "take n trace = trace" by simp
      then show ?thesis
        using assms(1,4)
        by (simp add: inFlight_append take_map inFlight_started inFlight_settled)
    qed
  qed
qed

lemma processBatches_runs:
  "inFlight trace = 0 \<Longrightarrow> \<forall>n. inFlight (take n trace) \<le> 3 \<Longrightarrow>
   \<exists>calls. processBatches describe latency images i results trace
       = Some (results @ map (\<lambda>(k, imageData). analysisOf describe k imageData)
                           (enumerate i (drop i images)), calls)
     \<and> inFlight calls = 0 \<and> (\<forall>n. inFlight (take n calls) \<le> 3)"
proof (induction describe latency images i results trace rule: processBatches.induct)
  case (1 describe latency images i results trace)
  show ?case
  proof (cases "i < length images")
    case False
    then show ?thesis
      using "1.prems" by (subst processBatches.simps) simp
  next
    case True
    define batch where "batch = take concurrencyLimit (drop i images)"
    define batchResults where
      "batchResults = map (\<lambda>(k, imageData). analysisOf describe k imageData) (enumerate i batch)"
    obtain started settled where calls:
      "snd (runBatch describe latency i batch)
         = map (\<lambda>index. Started (i + index)) started @ map (\<lambda>index. Settled (i + index)) settled"
      "length settled = length started" "length started \<le> length batch"
      using runBatch_calls [of describe latency i batch] by blast
    define calls where "calls = snd (runBatch describe latency i batch)"
    have run: "runBatch describe latency i batch = (Some batchResults, calls)"
      using runBatch_results [of describe latency i batch]
      by (simp add: batchResults_def calls_def prod_eq_iff)
    have "length started \<le> 3"
      using calls(3) by (simp add: batch_def concurrencyLimit_def)
    then have bounded: "inFlight (trace @ calls) = 0" "\<forall>n. inFlight (take n (trace @ calls)) \<le> 3"
      using calls_within_limit [OF "1.prems" calls(2), of "\<lambda>index. i + index" "\<lambda>index. i + index"]
      by (simp_all add: calls_def calls(1))
    obtain calls' where rest:
      "processBatches describe latency images (i + concurrencyLimit) (results @ batchResults)
         (trace @ calls)
       = Some ((results @ batchResults)
               @ map (\<lambda>(k, imageData). analysisOf describe k imageData)
                   (enumerate (i + concurrencyLimit) (drop (i + concurrencyLimit) images)), calls')"
      "inFlight calls' = 0" "\<forall>n. inFlight (take n calls') \<le> 3"
      using "1.IH" [OF True _ _ bounded] run
      by (auto simp: batch_def)
    have "enumerate i (drop i images)
            = enumerate i batch
              @ enumerate (i + concurrencyLimit) (drop (i + concurrencyLimit) images)"
    proof (cases "i + concurrencyLimit \<le> length images")
      case True
      then have "length batch = concurrencyLimit" by (simp add: batch_def)
      moreover have "drop i images = batch @ drop (i + concurrencyLimit) images"
        by (simp add: batch_def add.commute [of i] flip: drop_drop)
      ultimately show ?thesis
        by (metis enumerate_append_eq)
    next
      case False
      then show ?thesis by (simp add: batch_def)
    qed
    then have "results @ map (\<lambda>(k, imageData). analysisOf describe k imageData)
                           (enumerate i (drop i images))
                 = (results @ batchResults)
                   @ map (\<lambda>(k, imageData). analysisOf describe k imageData)
                       (enumerate (i + concurrencyLimit) (drop (i + concurrencyLimit) images))"
      by (simp add: batchResults_def)
    then show ?thesis
      using rest True run
      by (subst processBatches.simps) (simp add: batch_def)
  qed
qed

lemma POST_analyzes:
  assumes "destructureImages parsed = Returns (Some (JArr images))" and "images \<noteq> []"
  shows "\<exists>calls. POST (Returns parsed) describe latency
           = Some (\<lparr>status = 200,
                    payload = AnalysesPayload
                      (map (\<lambda>(k, imageData). analysisOf describe k imageData)
                         (enumerate 0 images))\<rparr>, calls)
         \<and> inFlight calls = 0 \<and> (\<forall>n. inFlight (take n calls) \<le> 3)"
proof -
  obtain calls where
    "processBatches describe latency images 0 [] []
       = Some ([] @ map (\<lambda>(k, imageData). analysisOf describe k imageData)
                      (enumerate 0 (drop 0 images)), calls)"
    "inFlight calls = 0" "\<forall>n. inFlight (take n calls) \<le> 3"
    using processBatches_runs [of "[]" describe latency images 0 "[]"]
    by (auto simp: inFlight_def)
  then show ?thesis
    using assms by (simp add: POST_def falsy_def isArray_def elements_def)
qed

lemma POST_rejects:
  assumes "destructureImages parsed = Returns field"
    and "field = None \<or> (\<exists>v. field = Some v \<and> \<not> isArray v) \<or> field = Some (JArr [])"
  shows "POST (Returns parsed) describe latency
           = Some (\<lparr>status = 400, payload = ErrorPayload ''Images array is required''\<rparr>, [])"
  using assms by (auto simp: POST_def elements_def)

lemma no_calls_within_limit:
  "inFlight [] = 0 \<and> (\<forall>n. inFlight (take n []) \<le> 3)"
  by (simp add: inFlight_def)

lemma POST_answers:
  "\<exists>reply calls. POST body describe latency = Some (reply, calls)
     \<and> inFlight calls = 0 \<and> (\<forall>n. inFlight (take n calls) \<le> 3)"
proof (cases body)
  case (Throws thrown)
  then have "POST body describe latency = Some (serverError thrown, [])"
    by (simp add: POST_def)
  then show ?thesis using no_calls_within_limit by blast
next
  case body: (Returns parsed)
  show ?thesis
  proof (cases "destructureImages parsed")
    case (Throws thrown)
    then have "POST body describe latency = Some (serverError thrown, [])"
      by (simp add: POST_def body)
    then show ?thesis using no_calls_within_limit by blast
  next
    case field: (Returns field)
    show ?thesis
    proof (cases "\<exists>x xs. field = Some (JArr (x # xs))")
      case True
      then obtain x xs where "destructureImages parsed = Returns (Some (JArr (x # xs)))"
        using field by blast
      then show ?thesis
        using POST_analyzes [of parsed "x # xs" describe latency] body by auto
    next
      case False
      have "field = None \<or> (\<exists>v. field = Some v \<and> \<not> isArray v) \<or> field = Some (JArr [])"
      proof (cases field)
        case None
        then show ?thesis by simp
      next
        case (Some v)
        show ?thesis
        proof (cases v)
          case (JArr xs)
          then show ?thesis using False Some by (cases xs) simp_all
        qed (simp_all add: Some isArray_def)
      qed
      then have "POST body describe latency
           = Some (\<lparr>status = 400, payload = ErrorPayload ''Images array is required''\<rparr>, [])"
        unfolding body using field by (intro POST_rejects)
      then show ?thesis using no_calls_within_limit by blast
    qed
  qed
qed

lemma destructureImages_field:
  "parsed \<noteq> JNull \<Longrightarrow> destructureImages parsed = Returns (imagesField parsed)"
  by (cases parsed) (simp_all add: destructureImages_def imagesField_def)

lemma imagesField_array:
  "imagesField parsed = Some v \<Longrightarrow> destructureImages parsed = Returns (Some v)"
  by (cases parsed) (simp_all add: destructureImages_def imagesField_def)

lemma imagesField_batchBody: "imagesField (batchBody images) = Some (JArr images)"
  by (simp add: imagesField_def batchBody_def)

lemma enumerate_results_nth:
  "i < length images \<Longrightarrow>
   map (\<lambda>(k, imageData). analysisOf describe k imageData) (enumerate 0 images) ! i
     = analysisOf describe i (images ! i)"
  by (simp add: nth_enumerate_eq)

lemma batch_results_in_order:
  assumes "images \<noteq> []" and "imagesField parsed = Some (JArr images)"
  shows "\<exists>results calls.
        POST (Returns parsed) describe latency
          = Some (\<lparr>status = 200, payload = AnalysesPayload results\<rparr>, calls)
        \<and> length results = length images
        \<and> (\<forall>i<length images. results ! i = analysisOf describe i (images ! i))"
proof -
  obtain calls where
    "POST (Returns parsed) describe latency
       = Some (\<lparr>status = 200,
                payload = AnalysesPayload
                  (map (\<lambda>(k, imageData). analysisOf describe k imageData)
                     (enumerate 0 images))\<rparr>, calls)"
    using POST_analyzes [of parsed images describe latency] imagesField_array assms by blast
  moreover have "length (map (\<lambda>(k, imageData). analysisOf describe k imageData)
                    (enumerate 0 images)) = length images"
    by simp
  ultimately show ?thesis
    using enumerate_results_nth [of _ images describe] by blast
qed

lemmas endpoint_defs = analysisOf_def prepare_def finish_def falsy_def second_def
  errorMessage_def demoImages_def demoDescribe_def frameA_def frameB_def showNat_digit
  digitChar_def

lemma demo_batch_run:
  "POST (Returns (batchBody demoImages)) demoDescribe demoLatency
     = Some (\<lparr>status = 200,
              payload = AnalysesPayload
                [''a page'', ''Error analyzing image 1: Request timed out.'', ''a page'',
                 ''Image 3 has invalid format'', ''a page'']\<rparr>,
             [Started 0, Started 1, Started 2, Settled 2, Settled 1, Settled 0,
              Started 4, Settled 4])"
  by (simp add: POST_def batchBody_def destructureImages_def isArray_def elements_def
        processBatches.simps runBatch_def promiseAll_def concurrencyLimit_def Let_def
        isAwait_def demoLatency_def endpoint_defs enumerate_eq_zip upt_rec)

section \<open>The batch endpoint: order and fault isolation\<close>

text \<open>
  Claim C2. For a request whose \<^verbatim>\<open>images\<close> is a non-empty array, whatever the describer
  does for each frame and in whatever order its calls settle, the endpoint answers with
  as many analysis records as there are images, and the record at position \<open>i\<close> is the
  result of the callback for the image at position \<open>i\<close>.
\<close>

theorem batch_results_follow_input_order:
  "images \<noteq> [] \<and> imagesField parsed = Some (JArr images) \<longrightarrow>
     (\<exists>results calls.
        POST (Returns parsed) describe latency
          = Some (\<lparr>status = 200, payload = AnalysesPayload results\<rparr>, calls)
        \<and> length results = length images
        \<and> (\<forall>i<length images. results ! i = analysisOf describe i (images ! i)))"
  using batch_results_in_order [of images parsed describe latency] by blast

theorem batch_results_witness:
  "\<exists>results calls.
     POST (Returns (batchBody demoImages)) demoDescribe demoLatency
       = Some (\<lparr>status = 200, payload = AnalysesPayload results\<rparr>, calls)
     \<and> length results = 5
     \<and> results ! 0 = ''a page''
     \<and> results ! 1 = ''Error analyzing image 1: Request timed out.''
     \<and> results ! 3 = ''Image 3 has invalid format''"
proof -
  have "demoImages \<noteq> [] \<and> imagesField (batchBody demoImages) = Some (JArr demoImages)"
    by (simp add: imagesField_batchBody) (simp add: demoImages_def)
  then obtain results calls where r:
    "POST (Returns (batchBody demoImages)) demoDescribe demoLatency
       = Some (\<lparr>status = 200, payload = AnalysesPayload results\<rparr>, calls)"
    "length results = length demoImages"
    "\<forall>i<length demoImages. results ! i = analysisOf demoDescribe i (demoImages ! i)"
    using batch_results_follow_input_order
      [of demoImages "batchBody demoImages" demoDescribe demoLatency]
    by blast
  have "length results = 5" using r(2) by (simp add: demoImages_def)
  moreover have "results ! 0 = ''a page''"
    using r(3) by (simp add: endpoint_defs)
  moreover have "results ! 1 = ''Error analyzing image 1: Request timed out.''"
    using r(3) by (simp add: endpoint_defs)
  moreover have "results ! 3 = ''Image 3 has invalid format''"
    using r(3) by (simp add: endpoint_defs)
  ultimately show ?thesis using r(1) by blast
qed

lemma analysisOf_invalid:
  "falsy imageData \<or> (\<exists>s. imageData = JStr s \<and> \<not> prefix ''data:image/'' s) \<Longrightarrow>
   analysisOf describe k imageData = ''Image '' @ showNat k @ '' has invalid format''"
  by (auto simp: analysisOf_def prepare_def)

lemma analysisOf_throws:
  "prepare k imageData = Await url \<Longrightarrow> describe k url = Throws thrown \<Longrightarrow>
   analysisOf describe k imageData
     = ''Error analyzing image '' @ showNat k @ '': '' @ errorMessage thrown"
  by (simp add: analysisOf_def finish_def)

lemma analysisOf_elsewhere:
  "i \<noteq> j \<Longrightarrow> analysisOf (describe(j := other)) i imageData = analysisOf describe i imageData"
  by (simp add: analysisOf_def split: prepared.split)

text \<open>
  Claim C3. In a batch, a frame that fails the pre-check (a falsy payload, or a string
  that does not start with \<^verbatim>\<open>data:image/\<close>) and a frame whose describer call throws each get
  their error text in their own slot; the endpoint still answers 200 with a record per
  frame; and replacing the frame at one position and what the describer does there
  leaves the records of all other positions as they were.
\<close>

theorem frame_failure_stays_in_its_slot:
  "images \<noteq> [] \<and> j < length images \<longrightarrow>
     (\<exists>results calls.
        POST (Returns (batchBody images)) describe latency
          = Some (\<lparr>status = 200, payload = AnalysesPayload results\<rparr>, calls)
        \<and> length results = length images
        \<and> (falsy (images ! j) \<or> (\<exists>s. images ! j = JStr s \<and> \<not> prefix ''data:image/'' s)
             \<longrightarrow> results ! j = ''Image '' @ showNat j @ '' has invalid format'')
        \<and> (\<forall>url thrown. prepare j (images ! j) = Await url \<and> describe j url = Throws thrown
             \<longrightarrow> results ! j
                   = ''Error analyzing image '' @ showNat j @ '': '' @ errorMessage thrown)
        \<and> (\<forall>replaced answers latency'. \<exists>results' calls'.
              POST (Returns (batchBody (images[j := replaced]))) (describe(j := answers)) latency'
                = Some (\<lparr>status = 200, payload = AnalysesPayload results'\<rparr>, calls')
              \<and> (\<forall>i<length images. i \<noteq> j \<longrightarrow> results' ! i = results ! i)))"
proof
  assume a: "images \<noteq> [] \<and> j < length images"
  then obtain results calls where r:
    "POST (Returns (batchBody images)) describe latency
       = Some (\<lparr>status = 200, payload = AnalysesPayload results\<rparr>, calls)"
    "length results = length images"
    "\<forall>i<length images. results ! i = analysisOf describe i (images ! i)"
    using batch_results_in_order [of images "batchBody images" describe latency]
      imagesField_batchBody
    by blast
  have here: "results ! j = analysisOf describe j (images ! j)"
    using a r(3) by simp
  have invalid:
    "falsy (images ! j) \<or> (\<exists>s. images ! j = JStr s \<and> \<not> prefix ''data:image/'' s)
       \<longrightarrow> results ! j = ''Image '' @ showNat j @ '' has invalid format''"
    using analysisOf_invalid [of "images ! j" describe j] here by simp
  have throws:
    "\<forall>url thrown. prepare j (images ! j) = Await url \<and> describe j url = Throws thrown
       \<longrightarrow> results ! j = ''Error analyzing image '' @ showNat j @ '': '' @ errorMessage thrown"
    using analysisOf_throws [of j "images ! j" _ describe] here by simp
  have others:
    "\<exists>results' calls'.
        POST (Returns (batchBody (images[j := replaced]))) (describe(j := answers)) latency'
          = Some (\<lparr>status = 200, payload = AnalysesPayload results'\<rparr>, calls')
        \<and> (\<forall>i<length images. i \<noteq> j \<longrightarrow> results' ! i = results ! i)"
    for replaced answers latency'
  proof -
    obtain results' calls' where r':
      "POST (Returns (batchBody (images[j := replaced]))) (describe(j := answers)) latency'
         = Some (\<lparr>status = 200, payload = AnalysesPayload results'\<rparr>, calls')"
      "\<forall>i<length (images[j := replaced]).
          results' ! i = analysisOf (describe(j := answers)) i (images[j := replaced] ! i)"
      using batch_results_in_order
        [of "images[j := replaced]" "batchBody (images[j := replaced])" "describe(j := answers)"
           latency']
        imagesField_batchBody a
      by auto
    have "results' ! i = results ! i" if "i < length images" "i \<noteq> j" for i
      using that r'(2) r(3) by (simp add: analysisOf_elsewhere)
    then show ?thesis using r'(1) by blast
  qed
  show "\<exists>results calls.
        POST (Returns (batchBody images)) describe latency
          = Some (\<lparr>status = 200, payload = AnalysesPayload results\<rparr>, calls)
        \<and> length results = length images
        \<and> (falsy (images ! j) \<or> (\<exists>s. images ! j = JStr s \<and> \<not> prefix ''data:image/'' s)
             \<longrightarrow> results ! j = ''Image '' @ showNat j @ '' has invalid format'')
        \<and> (\<forall>url thrown. prepare j (images ! j) = Await url \<and> describe j url = Throws thrown
             \<longrightarrow> results ! j
                   = ''Error analyzing image '' @ showNat j @ '': '' @ errorMessage thrown)
        \<and> (\<forall>replaced answers latency'. \<exists>results' calls'.
              POST (Returns (batchBody (images[j := replaced]))) (describe(j := answers)) latency'
                = Some (\<lparr>status = 200, payload = AnalysesPayload results'\<rparr>, calls')
              \<and> (\<forall>i<length images. i \<noteq> j \<longrightarrow> results' ! i = results ! i))"
    using r(1,2) invalid throws others by blast
qed

theorem frame_failure_witness:
  "\<exists>results calls.
     POST (Returns (batchBody demoImages)) demoDescribe demoLatency
       = Some (\<lparr>status = 200, payload = AnalysesPayload results\<rparr>, calls)
     \<and> length results = 5
     \<and> results ! 1 = ''Error analyzing image 1: Request timed out.''
     \<and> (\<exists>results' calls'.
           POST (Returns (batchBody (demoImages[1 := JNull])))
             (demoDescribe(1 := (\<lambda>url. Returns (Some ''another page'')))) demoLatency
             = Some (\<lparr>status = 200, payload = AnalysesPayload results'\<rparr>, calls')
           \<and> results' ! 0 = results ! 0 \<and> results' ! 2 = results ! 2
           \<and> results' ! 3 = results ! 3 \<and> results' ! 4 = results ! 4)"
proof -
  have "demoImages \<noteq> [] \<and> 1 < length demoImages"
    by (simp add: demoImages_def)
  then obtain results calls where r:
    "POST (Returns (batchBody demoImages)) demoDescribe demoLatency
       = Some (\<lparr>status = 200, payload = AnalysesPayload results\<rparr>, calls)"
    "length results = length demoImages"
    "\<forall>url thrown. prepare 1 (demoImages ! 1) = Await url \<and> demoDescribe 1 url = Throws thrown
       \<longrightarrow> results ! 1
             = ''Error analyzing image '' @ showNat 1 @ '': '' @ errorMessage thrown"
    "\<forall>replaced answers latency'. \<exists>results' calls'.
        POST (Returns (batchBody (demoImages[1 := replaced]))) (demoDescribe(1 := answers))
          latency'
          = Some (\<lparr>status = 200, payload = AnalysesPayload results'\<rparr>, calls')
        \<and> (\<forall>i<length demoImages. i \<noteq> 1 \<longrightarrow> results' ! i = results ! i)"
    using frame_failure_stays_in_its_slot [of demoImages 1 demoDescribe demoLatency]
    by blast
  have "length results = 5" using r(2) by (simp add: demoImages_def)
  moreover have "prepare 1 (demoImages ! 1) = Await ''data:image/jpeg;base64,/9j/4AAQSkZJRh==''"
    by (simp add: endpoint_defs)
  then have "results ! 1 = ''Error analyzing image 1: Request timed out.''"
    using r(3) by (simp add: endpoint_defs)
  moreover obtain results' calls' where
    "POST (Returns (batchBody (demoImages[1 := JNull])))
       (demoDescribe(1 := (\<lambda>url. Returns (Some ''another page'')))) demoLatency
       = Some (\<lparr>status = 200, payload = AnalysesPayload results'\<rparr>, calls')"
    "\<forall>i<length demoImages. i \<noteq> 1 \<longrightarrow> results' ! i = results ! i"
    using r(4) by blast
  moreover have "length demoImages = 5" by (simp add: demoImages_def)
  ultimately show ?thesis using r(1) by auto
qed

section \<open>The batch endpoint: concurrency and rejected requests\<close>

text \<open>
  Claim C8. The handler answers every request, and at no point of its run are more than
  3 describer calls in flight; whenever a call starts, fewer than 3 are in flight.
\<close>

theorem describer_calls_within_limit:
  "\<exists>reply calls.
     POST body describe latency = Some (reply, calls)
     \<and> (\<forall>n. inFlight (take n calls) \<le> 3)
     \<and> (\<forall>n k. n < length calls \<and> calls ! n = Started k \<longrightarrow> inFlight (take n calls) < 3)"
proof -
  obtain reply calls where r:
    "POST body describe latency = Some (reply, calls)" "\<forall>n. inFlight (take n calls) \<le> 3"
    using POST_answers [of body describe latency] by blast
  have "inFlight (take n calls) < 3" if "n < length calls" "calls ! n = Started k" for n k
  proof -
    have "take (Suc n) calls = take n calls @ [Started k]"
      using that by (simp add: take_Suc_conv_app_nth)
    then have "inFlight (take (Suc n) calls) = inFlight (take n calls) + 1"
      by (simp add: inFlight_def)
    then show ?thesis using r(2) [rule_format, of "Suc n"] by simp
  qed
  then show ?thesis using r by blast
qed

theorem describer_calls_witness:
  "\<exists>reply.
     POST (Returns (batchBody demoImages)) demoDescribe demoLatency
       = Some (reply, [Started 0, Started 1, Started 2, Settled 2, Settled 1, Settled 0,
                       Started 4, Settled 4])
     \<and> inFlight [Started 0, Started 1, Started 2] \<le> 3
     \<and> inFlight [Started 0, Started 1, Started 2, Settled 2, Settled 1, Settled 0] < 3"
proof -
  obtain reply calls where r:
    "POST (Returns (batchBody demoImages)) demoDescribe demoLatency = Some (reply, calls)"
    "\<forall>n. inFlight (take n calls) \<le> 3"
    "\<forall>n k. n < length calls \<and> calls ! n = Started k \<longrightarrow> inFlight (take n calls) < 3"
    using describer_calls_within_limit
      [of "Returns (batchBody demoImages)" demoDescribe demoLatency]
    by blast
  have calls: "calls = [Started 0, Started 1, Started 2, Settled 2, Settled 1, Settled 0,
                        Started 4, Settled 4]"
    using r(1) demo_batch_run by simp
  have "inFlight [Started 0, Started 1, Started 2] \<le> 3"
    using r(2) [rule_format, of 3] by (simp add: calls)
  moreover have "inFlight [Started 0, Started 1, Started 2, Settled 2, Settled 1, Settled 0] < 3"
    using r(3) [rule_format, of 6 4] by (simp add: calls)
  ultimately show ?thesis using r(1) calls by blast
qed

text \<open>
  Claim C10, as the code has it. A parsed body other than \<^verbatim>\<open>null\<close> that has no
  \<^verbatim>\<open>images\<close> member, or whose \<^verbatim>\<open>images\<close> is not an array or is an empty array, is answered
  with status 400 and no describer call. A body that is \<^verbatim>\<open>null\<close>, or not JSON at all, is
  answered with status 500, again without a describer call.
\<close>

theorem missing_images_rejected:
  "(parsed \<noteq> JNull
      \<and> (imagesField parsed = None \<or> (\<exists>v. imagesField parsed = Some v \<and> \<not> isArray v)
           \<or> imagesField parsed = Some (JArr []))
      \<longrightarrow> POST (Returns parsed) describe latency
            = Some (\<lparr>status = 400, payload = ErrorPayload ''Images array is required''\<rparr>, []))
   \<and> (\<exists>message. POST (Returns JNull) describe latency
                   = Some (\<lparr>status = 500, payload = ErrorPayload message\<rparr>, []))
   \<and> (\<exists>message. POST (Throws thrown) describe latency
                   = Some (\<lparr>status = 500, payload = ErrorPayload message\<rparr>, []))"
proof (intro conjI impI)
  assume a: "parsed \<noteq> JNull
      \<and> (imagesField parsed = None \<or> (\<exists>v. imagesField parsed = Some v \<and> \<not> isArray v)
           \<or> imagesField parsed = Some (JArr []))"
  then have "destructureImages parsed = Returns (imagesField parsed)"
    by (simp add: destructureImages_field)
  then show "POST (Returns parsed) describe latency
            = Some (\<lparr>status = 400, payload = ErrorPayload ''Images array is required''\<rparr>, [])"
    using a POST_rejects [of parsed "imagesField parsed" describe latency] by blast
next
  show "\<exists>message. POST (Returns JNull) describe latency
                   = Some (\<lparr>status = 500, payload = ErrorPayload message\<rparr>, [])"
    by (simp add: POST_def destructureImages_def serverError_def)
next
  show "\<exists>message. POST (Throws thrown) describe latency
                   = Some (\<lparr>status = 500, payload = ErrorPayload message\<rparr>, [])"
    by (simp add: POST_def serverError_def)
qed

theorem missing_images_witness:
  "POST (Returns (JObj [(''frames'', JArr demoImages)])) demoDescribe demoLatency
     = Some (\<lparr>status = 400, payload = ErrorPayload ''Images array is required''\<rparr>, [])
   \<and> POST (Returns (JObj [(''images'', JStr frameA)])) demoDescribe demoLatency
     = Some (\<lparr>status = 400, payload = ErrorPayload ''Images array is required''\<rparr>, [])
   \<and> POST (Returns (batchBody [])) demoDescribe demoLatency
     = Some (\<lparr>status = 400, payload = ErrorPayload ''Images array is required''\<rparr>, [])"
  using missing_images_rejected
      [of "JObj [(''frames'', JArr demoImages)]" demoDescribe demoLatency]
    missing_images_rejected [of "JObj [(''images'', JStr frameA)]" demoDescribe demoLatency]
    missing_images_rejected [of "batchBody []" demoDescribe demoLatency]
  by (simp add: imagesField_def batchBody_def isArray_def)

text \<open>
  The bodies \<^verbatim>\<open>null\<close> and the empty body have no \<^verbatim>\<open>images\<close> member and are answered with
  status 500: the destructuring, or \<^verbatim>\<open>req.json()\<close>, throws into the handler's \<^verbatim>\<open>catch\<close>.
\<close>

theorem null_body_answered_500:
  "POST (Returns JNull) demoDescribe demoLatency
     = Some (\<lparr>status = 500,
              payload = ErrorPayload
                ''Failed to analyze images: Cannot destructure property 'images' of '(intermediate value)' as it is null.''\<rparr>,
             [])
   \<and> POST (Throws (Some ''Unexpected end of JSON input'')) demoDescribe demoLatency
     = Some (\<lparr>status = 500,
              payload = ErrorPayload
                ''Failed to analyze images: Unexpected end of JSON input''\<rparr>, [])"
  by (simp add: POST_def destructureImages_def serverError_def)

end
